theory Spec2Isabelle
  imports Main "HOL-Library.Word"
begin

section \<open>Byte buffers and the Python primitives the carver relies on\<close>

type_synonym byte = "8 word"
type_synonym bytes = "byte list"

text \<open>
  \<open>bytes.find(sub, start)\<close>: the lowest index \<open>i \<ge> start\<close> such that
  \<open>data[i:i+len(sub)] == sub\<close>, or \<open>-1\<close> when there is none. \<open>find_from\<close> is the
  left-to-right search from a non-negative start; \<open>bytes_find\<close> adds Python's treatment of
  a negative start (counted from the end, clipped at 0).
\<close>

function find_from :: "bytes \<Rightarrow> bytes \<Rightarrow> nat \<Rightarrow> int" where
  "find_from data sub i =
     (if length data < i + length sub then - 1
      else if take (length sub) (drop i data) = sub then int i
      else find_from data sub (Suc i))"
  by pat_completeness auto
termination
  by (relation "measure (\<lambda>(data, sub, i). Suc (length data) - i)") auto

declare find_from.simps [simp del]

definition bytes_find :: "bytes \<Rightarrow> bytes \<Rightarrow> int \<Rightarrow> int" where
  "bytes_find data sub start =
     find_from data sub
       (if start < 0 then (if start + int (length data) < 0 then 0
                           else nat (start + int (length data)))
        else nat start)"

text \<open>
  Python slicing \<open>xs[s:e]\<close> for integer bounds: a negative bound counts from the end, and
  every bound is clipped into \<open>[0, len]\<close>; an empty range gives the empty sequence.
\<close>

definition clip_index :: "int \<Rightarrow> nat \<Rightarrow> nat" where
  "clip_index i n =
     (if i < 0 then (if i + int n < 0 then 0 else nat (i + int n))
      else if int n < i then n else nat i)"

definition py_slice :: "'a list \<Rightarrow> int \<Rightarrow> int \<Rightarrow> 'a list" where
  "py_slice xs s e =
     (let a = clip_index s (length xs); b = clip_index e (length xs)
      in take (b - a) (drop a xs))"

section \<open>The signature catalog\<close>

text \<open>
  \<open>FILE_SIGNATURES\<close> is a dict literal; iteration follows insertion order, so it is an
  association list here: signature, then (extension, footer), \<open>None\<close> for a format
  without footer.
\<close>

type_synonym signature_entry = "bytes \<times> string \<times> bytes option"

definition FILE_SIGNATURES :: "signature_entry list" where
  "FILE_SIGNATURES =
    [([0x50, 0x4B, 0x03, 0x04], ''zip'', Some [0x50, 0x4B, 0x05, 0x06]),
     ([0x25, 0x50, 0x44, 0x46], ''pdf'', Some [0x25, 0x25, 0x45, 0x4F, 0x46]),
     ([0x89, 0x50, 0x4E, 0x47, 0x0D, 0x0A, 0x1A, 0x0A], ''png'',
        Some [0x49, 0x45, 0x4E, 0x44, 0xAE, 0x42, 0x60, 0x82]),
     ([0xFF, 0xD8, 0xFF], ''jpg'', Some [0xFF, 0xD9]),
     ([0x47, 0x49, 0x46, 0x38, 0x37, 0x61], ''gif'', None),
     ([0x47, 0x49, 0x46, 0x38, 0x39, 0x61], ''gif'', None),
     ([0x49, 0x49, 0x2A, 0x00], ''tiff'', None),
     ([0x4D, 0x4D, 0x00, 0x2A], ''tiff'', None),
     ([0xEF, 0xBB, 0xBF], ''txt'', None),
     ([0xFF, 0xFE], ''txt'', None),
     ([0xFE, 0xFF], ''txt'', None),
     ([0x00, 0x00, 0xFE, 0xFF], ''txt'', None),
     ([0xFF, 0xFE, 0x00, 0x00], ''txt'', None)]"

section \<open>The signature scanner\<close>

text \<open>A hit is the tuple the scanner appends: (signature, offset, extension, footer).\<close>

type_synonym hit = "bytes \<times> int \<times> string \<times> bytes option"

definition hit_offset :: "hit \<Rightarrow> int" where
  "hit_offset x = fst (snd x)"

text \<open>
  The inner \<open>while offset != -1\<close> loop of \<open>find_file_signatures\<close>, with the list
  \<open>signatures\<close> it appends to passed through.
\<close>

function scan_signature :: "bytes \<Rightarrow> signature_entry \<Rightarrow> int \<Rightarrow> hit list \<Rightarrow> hit list" where
  "scan_signature data entry offset signatures =
     (if offset \<noteq> - 1
      then scan_signature data entry (bytes_find data (fst entry) (offset + 1))
             (signatures @ [(fst entry, offset, fst (snd entry), snd (snd entry))])
      else signatures)"
  by pat_completeness auto
termination
proof (relation "measure (\<lambda>(data, entry, offset, signatures).
          if offset = - 1 then 0 else Suc (nat (int (length data) - offset)))")
  show "wf (measure (\<lambda>(data, entry, offset, signatures).
          if offset = - 1 then 0 else Suc (nat (int (length data) - offset))))"
    by simp
next
  fix data :: bytes and entry :: signature_entry and offset :: int and signatures :: "hit list"
  assume ne: "offset \<noteq> - 1"
  have range: "find_from d s i = - 1 \<or> (int i \<le> find_from d s i \<and> find_from d s i \<le> int (length d))"
    for d s i
  proof (induction d s i rule: find_from.induct)
    case (1 data sub i)
    then show ?case
      by (auto simp: find_from.simps [of data sub i])
  qed
  define start where "start = (if offset + 1 < 0
      then (if offset + 1 + int (length data) < 0 then 0 else nat (offset + 1 + int (length data)))
      else nat (offset + 1))"
  have next_eq: "bytes_find data (fst entry) (offset + 1) = find_from data (fst entry) start"
    by (simp add: bytes_find_def start_def)
  have "offset < int start"
    using ne by (auto simp: start_def)
  with range [of data "fst entry" start]
  have "find_from data (fst entry) start = - 1 \<or>
        (offset < find_from data (fst entry) start \<and>
         find_from data (fst entry) start \<le> int (length data))"
    by linarith
  with ne show "((data, entry, bytes_find data (fst entry) (offset + 1),
                 signatures @ [(fst entry, offset, fst (snd entry), snd (snd entry))]),
                (data, entry, offset, signatures))
          \<in> measure (\<lambda>(data, entry, offset, signatures).
                if offset = - 1 then 0 else Suc (nat (int (length data) - offset)))"
    unfolding next_eq by auto
qed

declare scan_signature.simps [simp del]

text \<open>
  \<open>find_file_signatures\<close>: the \<open>for\<close> loop over the catalog in iteration order, each
  entry scanned from \<open>data.find(signature)\<close>, then the stable sort on the offset.
\<close>

definition scan_catalog :: "signature_entry list \<Rightarrow> bytes \<Rightarrow> hit list" where
  "scan_catalog catalog data =
     fold (\<lambda>entry signatures.
             scan_signature data entry (bytes_find data (fst entry) 0) signatures)
          catalog []"

definition find_file_signatures :: "bytes \<Rightarrow> hit list" where
  "find_file_signatures data = sort_key hit_offset (scan_catalog FILE_SIGNATURES data)"

section \<open>Text: decoding, splitting, stripping\<close>

text \<open>
  A Python \<open>str\<close> is a sequence of Unicode code points. \<open>str_of\<close> reads an ASCII
  literal of the source as one.
\<close>

type_synonym pystr = "nat list"

definition str_of :: "string \<Rightarrow> pystr" where
  "str_of s = map of_char s"

definition is_continuation :: "byte \<Rightarrow> bool" where
  "is_continuation b = (0x80 \<le> b \<and> b < 0xC0)"

text \<open>
  \<open>bytes.decode('utf-8', errors='ignore')\<close>, following CPython's decoder: an invalid
  start byte is dropped alone; a sequence broken by a byte that cannot continue it is
  dropped up to, not including, that byte; overlong forms, surrogates and values above
  U+10FFFF are rejected at their second byte; a sequence cut off by the end of the input
  is dropped. Nothing is raised.
\<close>

fun utf8_decode_ignore :: "bytes \<Rightarrow> pystr" where
  "utf8_decode_ignore [] = []"
| "utf8_decode_ignore (ch # s) =
     (if ch < 0x80 then unat ch # utf8_decode_ignore s
      else if ch < 0xC2 then utf8_decode_ignore s
      else if ch < 0xE0 then
        (case s of
           [] \<Rightarrow> []
         | ch2 # s2 \<Rightarrow>
             if \<not> is_continuation ch2 then utf8_decode_ignore s
             else ((unat ch - 0xC0) * 64 + (unat ch2 - 0x80)) # utf8_decode_ignore s2)
      else if ch < 0xF0 then
        (case s of
           [] \<Rightarrow> []
         | ch2 # s2 \<Rightarrow>
             if \<not> is_continuation ch2 \<or> (if ch2 < 0xA0 then ch = 0xE0 else ch = 0xED)
             then utf8_decode_ignore s
             else (case s2 of
                     [] \<Rightarrow> []
                   | ch3 # s3 \<Rightarrow>
                       if \<not> is_continuation ch3 then utf8_decode_ignore s2
                       else ((unat ch - 0xE0) * 4096 + (unat ch2 - 0x80) * 64
                              + (unat ch3 - 0x80)) # utf8_decode_ignore s3))
      else if ch < 0xF5 then
        (case s of
           [] \<Rightarrow> []
         | ch2 # s2 \<Rightarrow>
             if \<not> is_continuation ch2 \<or> (if ch2 < 0x90 then ch = 0xF0 else ch = 0xF4)
             then utf8_decode_ignore s
             else (case s2 of
                     [] \<Rightarrow> []
                   | ch3 # s3 \<Rightarrow>
                       if \<not> is_continuation ch3 then utf8_decode_ignore s2
                       else (case s3 of
                               [] \<Rightarrow> []
                             | ch4 # s4 \<Rightarrow>
                                 if \<not> is_continuation ch4 then utf8_decode_ignore s3
                                 else ((unat ch - 0xF0) * 262144 + (unat ch2 - 0x80) * 4096
                                        + (unat ch3 - 0x80) * 64 + (unat ch4 - 0x80))
                                      # utf8_decode_ignore s4)))
      else utf8_decode_ignore s)"

text \<open>\<open>str.split(sep)\<close> for a one-character separator: always at least one part.\<close>

fun split_on :: "'a \<Rightarrow> 'a list \<Rightarrow> 'a list list" where
  "split_on sep [] = [[]]"
| "split_on sep (c # cs) =
     (if c = sep then [] # split_on sep cs
      else (case split_on sep cs of
              [] \<Rightarrow> [[c]]
            | part # parts \<Rightarrow> (c # part) # parts))"

text \<open>
  \<open>str.strip()\<close> removes leading and trailing whitespace, the code points for which
  \<open>str.isspace\<close> holds.
\<close>

definition is_space :: "nat \<Rightarrow> bool" where
  "is_space c =
     ((0x09 \<le> c \<and> c \<le> 0x0D) \<or> (0x1C \<le> c \<and> c \<le> 0x20) \<or> c = 0x85 \<or> c = 0xA0
      \<or> c = 0x1680 \<or> (0x2000 \<le> c \<and> c \<le> 0x200A) \<or> c = 0x2028 \<or> c = 0x2029
      \<or> c = 0x202F \<or> c = 0x205F \<or> c = 0x3000)"

definition strip :: "pystr \<Rightarrow> pystr" where
  "strip s = rev (dropWhile is_space (rev (dropWhile is_space s)))"

section \<open>Files and failures\<close>

datatype error = FileNotFoundError | UnicodeEncodeError | ZipFailure | OSError

text \<open>
  A path is the sequence of its parts, \<open>name\<close> the last one. The file system maps the
  paths of the regular files to their content; \<open>stat().st_size\<close> is the length of the
  content. Opening a file that is absent for reading fails. Whether a path can be opened
  for writing (its directory exists, the name is acceptable, access is granted) is for
  the operating system to decide: that decision is a parameter \<open>can_open\<close>, and a
  refusal raises \<open>OSError\<close>. A file that has been opened can be read or written in
  full.
\<close>

type_synonym path = "pystr list"
type_synonym file_system = "path \<rightharpoonup> bytes"

text \<open>
  \<open>directory / name\<close> for a relative name: the name is cut at each \<open>/\<close>, and empty
  parts and \<open>.\<close> parts are dropped.
\<close>

definition join_path :: "path \<Rightarrow> pystr \<Rightarrow> path" where
  "join_path directory name =
     directory @ filter (\<lambda>part. part \<noteq> [] \<and> part \<noteq> [0x2E]) (split_on 0x2F name)"

section \<open>Filename heuristic\<close>

text \<open>
  The \<open>for part in ...\<close> loop of \<open>extract_filename\<close> with its early \<open>return\<close>:
  \<open>None\<close> when the loop runs to its end.
\<close>

fun first_named_part :: "pystr list \<Rightarrow> pystr \<Rightarrow> pystr option" where
  "first_named_part [] extension = None"
| "first_named_part (part # parts) extension =
     (if 1 < length part \<and> 0x2E \<in> set part \<and> last (split_on 0x2E part) = extension
      then Some (strip part)
      else first_named_part parts extension)"

definition extract_filename :: "bytes \<Rightarrow> int \<Rightarrow> string \<Rightarrow> pystr" where
  "extract_filename data start extension =
     (let possible_filename = utf8_decode_ignore (py_slice data start (start + 100))
      in case first_named_part (split_on 0 possible_filename) (str_of extension) of
           Some name \<Rightarrow> name
         | None \<Rightarrow> str_of ''file.'' @ str_of extension)"

section \<open>Boundary resolution and extraction\<close>

text \<open>\<open>if footer:\<close> holds for a footer that is neither \<open>None\<close> nor empty.\<close>

definition truthy :: "bytes option \<Rightarrow> bool" where
  "truthy footer = (case footer of None \<Rightarrow> False | Some ft \<Rightarrow> ft \<noteq> [])"

text \<open>
  The value of \<open>end\<close> in iteration \<open>i\<close> of the loop of \<open>extract_files_from_image\<close>
  (\<open>i\<close> ranges over the indices of \<open>signatures\<close>).
\<close>

definition span_end :: "bytes \<Rightarrow> hit list \<Rightarrow> nat \<Rightarrow> int" where
  "span_end data signatures i =
     (case signatures ! i of
        (signature, offset, extension, footer) \<Rightarrow>
          if truthy footer
          then bytes_find data (the footer) offset + int (length (the footer))
          else if i + 1 < length signatures then hit_offset (signatures ! (i + 1))
          else int (length data))"

text \<open>
  One iteration: the slice \<open>data[start:end]\<close> and the name of the file it is written to
  inside the output directory.
\<close>

definition extract_one :: "bytes \<Rightarrow> hit list \<Rightarrow> nat \<Rightarrow> pystr \<times> bytes" where
  "extract_one data signatures i =
     (case signatures ! i of
        (signature, offset, extension, footer) \<Rightarrow>
          let start = offset;
              file_data = py_slice data start (span_end data signatures i);
              filename = extract_filename file_data 0 extension
          in (str_of ''extracted_'' @ filename, file_data))"

text \<open>
  The loop of \<open>extract_files_from_image\<close> over the indices of \<open>signatures\<close>: each
  iteration opens \<open>output_directory / extracted_<filename>\<close> for writing, which replaces
  a file of that name, and writes its slice. The name starts with \<open>extracted_\<close>, so it
  is relative. When the file cannot be opened the exception ends the loop; the files
  written before remain, and the result only names the error.
\<close>

fun write_extracted ::
    "(path \<Rightarrow> bool) \<Rightarrow> bytes \<Rightarrow> hit list \<Rightarrow> path \<Rightarrow> nat list \<Rightarrow> file_system
      \<Rightarrow> error + file_system" where
  "write_extracted can_open data signatures output_directory [] fs = Inr fs"
| "write_extracted can_open data signatures output_directory (i # rest) fs =
     (case extract_one data signatures i of
        (output_name, file_data) \<Rightarrow>
          let output_file = join_path output_directory output_name in
          if can_open output_file
          then write_extracted can_open data signatures output_directory rest
                 (fs(output_file \<mapsto> file_data))
          else Inl OSError)"

text \<open>
  \<open>extract_files_from_image\<close>: the image is read and scanned; without a hit the function
  returns at once; otherwise the loop runs over all hits.
\<close>

definition extract_files_from_image ::
    "(path \<Rightarrow> bool) \<Rightarrow> file_system \<Rightarrow> path \<Rightarrow> path \<Rightarrow> error + file_system" where
  "extract_files_from_image can_open fs image_path output_directory =
     (case fs image_path of
        None \<Rightarrow> Inl FileNotFoundError
      | Some data \<Rightarrow>
          let signatures = find_file_signatures data
          in if signatures = [] then Inr fs
             else write_extracted can_open data signatures output_directory
                    [0..<length signatures] fs)"

section \<open>The writer: hiding files behind a carrier image\<close>

definition SEPARATOR :: bytes where
  "SEPARATOR = [0x0D, 0x0A, 0x0D, 0x0A]"

definition FILENAME_SEPARATOR :: bytes where
  "FILENAME_SEPARATOR = [0x00]"

definition LENGTH_FIELD_SIZE :: nat where
  "LENGTH_FIELD_SIZE = 10"

definition path_name :: "path \<Rightarrow> pystr" where
  "path_name p = (if p = [] then [] else last p)"

text \<open>
  \<open>stem\<close> and \<open>suffix\<close> of the final part: the name is cut at its last dot when that
  dot is neither its first nor its last character.
\<close>

definition suffix_start :: "pystr \<Rightarrow> nat" where
  "suffix_start name =
     (let r = length (takeWhile (\<lambda>c. c \<noteq> 0x2E) (rev name))
      in if 0x2E \<in> set name \<and> 0 < r \<and> r + 1 < length name
         then length name - r - 1 else length name)"

definition path_stem :: "path \<Rightarrow> pystr" where
  "path_stem p = take (suffix_start (path_name p)) (path_name p)"

definition path_suffix :: "path \<Rightarrow> pystr" where
  "path_suffix p = drop (suffix_start (path_name p)) (path_name p)"

text \<open>The decimal digits of a size, in ASCII.\<close>

function decimal :: "nat \<Rightarrow> bytes" where
  "decimal n =
     (if n < 10 then [of_nat (0x30 + n)]
      else decimal (n div 10) @ [of_nat (0x30 + n mod 10)])"
  by pat_completeness auto
termination
  by (relation "measure (\<lambda>n. n)") auto

declare decimal.simps [simp del]

text \<open>
  The format \<open>{file_size:<{LENGTH_FIELD_SIZE}}\<close>: the digits first, then spaces up to
  the width; a number with more digits than the width is written in full.
\<close>

definition format_left :: "nat \<Rightarrow> nat \<Rightarrow> bytes" where
  "format_left width n = decimal n @ replicate (width - length (decimal n)) 0x20"

text \<open>\<open>str.encode('utf-8')\<close>: a surrogate code point cannot be encoded.\<close>

definition encode_point :: "nat \<Rightarrow> bytes" where
  "encode_point c =
     (if c < 0x80 then [of_nat c]
      else if c < 0x800 then [of_nat (0xC0 + c div 64), of_nat (0x80 + c mod 64)]
      else if c < 0x10000 then
        [of_nat (0xE0 + c div 4096), of_nat (0x80 + c div 64 mod 64), of_nat (0x80 + c mod 64)]
      else
        [of_nat (0xF0 + c div 262144), of_nat (0x80 + c div 4096 mod 64),
         of_nat (0x80 + c div 64 mod 64), of_nat (0x80 + c mod 64)])"

fun utf8_encode :: "pystr \<Rightarrow> error + bytes" where
  "utf8_encode [] = Inr []"
| "utf8_encode (c # cs) =
     (if 0xD800 \<le> c \<and> c \<le> 0xDFFF then Inl UnicodeEncodeError
      else (case utf8_encode cs of
              Inl e \<Rightarrow> Inl e
            | Inr bs \<Rightarrow> Inr (encode_point c @ bs)))"

text \<open>
  The output file is written through a buffer. It is emptied when it is opened, and
  while it is open a reader of the same path sees the part of the written chunks that
  has been flushed, which depends on the buffer of the I/O library: \<open>flushed\<close> gives that
  part for the chunks written so far and is a parameter. \<open>unflushed\<close> is the case of an
  output smaller than the buffer, of which nothing reaches the file before it is closed.
  When the file is closed it holds all the chunks.
\<close>

definition unflushed :: "bytes list \<Rightarrow> bytes" where
  "unflushed chunks = []"

definition while_open ::
    "(bytes list \<Rightarrow> bytes) \<Rightarrow> file_system \<Rightarrow> path \<Rightarrow> bytes list \<Rightarrow> file_system" where
  "while_open flushed fs output_image_path chunks = fs(output_image_path \<mapsto> flushed chunks)"

text \<open>
  The \<open>for file_path in files\<close> loop of \<open>concatenate_image_and_files\<close>, with the chunks
  written to the output so far passed through: the length field, the name and its
  terminator, then the content, then the separator.
\<close>

fun write_records ::
    "(bytes list \<Rightarrow> bytes) \<Rightarrow> file_system \<Rightarrow> path \<Rightarrow> bytes list \<Rightarrow> path list
      \<Rightarrow> error + bytes list" where
  "write_records flushed fs output_image_path chunks [] = Inr chunks"
| "write_records flushed fs output_image_path chunks (file_path # files) =
     (case while_open flushed fs output_image_path chunks file_path of
        None \<Rightarrow> Inl FileNotFoundError
      | Some stat_content \<Rightarrow>
          let file_size = length stat_content in
          (case utf8_encode (path_name file_path) of
             Inl e \<Rightarrow> Inl e
           | Inr file_name \<Rightarrow>
               let chunks1 = chunks @ [format_left LENGTH_FIELD_SIZE file_size @ file_name
                                        @ FILENAME_SEPARATOR] in
               (case while_open flushed fs output_image_path chunks1 file_path of
                  None \<Rightarrow> Inl FileNotFoundError
                | Some content \<Rightarrow>
                    write_records flushed fs output_image_path
                      (chunks1 @ [content, SEPARATOR]) files)))"

text \<open>\<open>if zip_path:\<close> holds for a path that is neither \<open>None\<close> nor empty.\<close>

definition path_truthy :: "path option \<Rightarrow> bool" where
  "path_truthy p = (case p of None \<Rightarrow> False | Some q \<Rightarrow> q \<noteq> [])"

text \<open>
  \<open>concatenate_image_and_files\<close>: the image is read first; then the output is opened
  and receives the image, the archive when there is one, and the records.
\<close>

definition concatenate_image_and_files ::
    "(path \<Rightarrow> bool) \<Rightarrow> (bytes list \<Rightarrow> bytes) \<Rightarrow> file_system \<Rightarrow> path \<Rightarrow> path option
      \<Rightarrow> path list \<Rightarrow> path \<Rightarrow> error + file_system" where
  "concatenate_image_and_files can_open flushed fs image_path zip_path files
       output_image_path =
     (case fs image_path of
        None \<Rightarrow> Inl FileNotFoundError
      | Some image_data \<Rightarrow>
          if \<not> can_open output_image_path then Inl OSError
          else
          (case (if path_truthy zip_path
                 then (case while_open flushed fs output_image_path [image_data]
                              (the zip_path) of
                         None \<Rightarrow> Inl FileNotFoundError
                       | Some zip_data \<Rightarrow> Inr [image_data, zip_data])
                 else Inr [image_data]) of
             Inl e \<Rightarrow> Inl e
           | Inr chunks \<Rightarrow>
               (case write_records flushed fs output_image_path chunks files of
                  Inl e \<Rightarrow> Inl e
                | Inr written \<Rightarrow> Inr (fs(output_image_path \<mapsto> concat written)))))"

definition validate_inputs :: "file_system \<Rightarrow> path \<Rightarrow> path list \<Rightarrow> error + unit" where
  "validate_inputs fs image_path files_to_hide =
     (if fs image_path = None then Inl FileNotFoundError
      else if list_ex (\<lambda>file_path. fs file_path = None) files_to_hide
      then Inl FileNotFoundError
      else Inr ())"

definition output_image_name :: "path \<Rightarrow> path" where
  "output_image_name image_file =
     [path_stem image_file @ str_of ''_with_hidden_files'' @ path_suffix image_file]"

text \<open>
  The body of \<open>main\<close> once the list \<open>files_to_hide\<close> is known. The archive written by
  \<open>ZipFile\<close> and the time-stamped name \<open>zip_file\<close> it is given are parameters:
  \<open>create_zip\<close> yields the bytes of the archive, or fails. The variable \<open>zip_name\<close> of
  the source is \<open>None\<close> unless more than one file is hidden. When a step fails, the
  result only names the error.
\<close>

definition hide_files ::
    "(path \<Rightarrow> bool) \<Rightarrow> (bytes list \<Rightarrow> bytes)
      \<Rightarrow> (file_system \<Rightarrow> path list \<Rightarrow> error + bytes) \<Rightarrow> path
      \<Rightarrow> file_system \<Rightarrow> path \<Rightarrow> path list \<Rightarrow> error + file_system" where
  "hide_files can_open flushed create_zip zip_file fs image_file files_to_hide =
     (case validate_inputs fs image_file files_to_hide of
        Inl e \<Rightarrow> Inl e
      | Inr _ \<Rightarrow>
          (case (if 1 < length files_to_hide
                 then (case create_zip fs files_to_hide of
                         Inl e \<Rightarrow> Inl e
                       | Inr zip_data \<Rightarrow> Inr (Some zip_file, fs(zip_file \<mapsto> zip_data)))
                 else Inr (None, fs)) of
             Inl e \<Rightarrow> Inl e
           | Inr (zip_name, fs1) \<Rightarrow>
               (case concatenate_image_and_files can_open flushed fs1 image_file zip_name
                       (if \<not> path_truthy zip_name then files_to_hide else [])
                       (output_image_name image_file) of
                  Inl e \<Rightarrow> Inl e
                | Inr fs2 \<Rightarrow>
                    if path_truthy zip_name then Inr (fs2(the zip_name := None))
                    else Inr fs2)))"

section \<open>Occurrences of a byte pattern\<close>

text \<open>
  The pattern \<open>sub\<close> occurs in \<open>data\<close> at index \<open>j\<close>: \<open>data[j:j+len(sub)] == sub\<close>
  with the whole pattern inside the buffer.
\<close>

definition occurs_at :: "bytes \<Rightarrow> bytes \<Rightarrow> nat \<Rightarrow> bool" where
  "occurs_at data sub j = (j + length sub \<le> length data \<and> take (length sub) (drop j data) = sub)"

definition occurrences_from :: "bytes \<Rightarrow> bytes \<Rightarrow> nat \<Rightarrow> nat list" where
  "occurrences_from data sub i = filter (occurs_at data sub) [i..<Suc (length data)]"

definition hit_at :: "signature_entry \<Rightarrow> nat \<Rightarrow> hit" where
  "hit_at entry j = (fst entry, int j, fst (snd entry), snd (snd entry))"

section \<open>The specification's reading of two formats\<close>

text \<open>The condition under which the loop of \<open>extract_filename\<close> accepts a fragment.\<close>

definition names_format :: "pystr \<Rightarrow> pystr \<Rightarrow> bool" where
  "names_format extension part =
     (1 < length part \<and> 0x2E \<in> set part \<and> last (split_on 0x2E part) = extension)"

text \<open>
  The filename as the specification words it: the first accepted fragment itself, or
  \<open>file.<format>\<close>.
\<close>

definition filename_by_spec :: "bytes \<Rightarrow> string \<Rightarrow> pystr" where
  "filename_by_spec data extension =
     (case List.find (names_format (str_of extension))
             (split_on 0 (utf8_decode_ignore (take 100 data))) of
        Some part \<Rightarrow> part
      | None \<Rightarrow> str_of ''file.'' @ str_of extension)"

text \<open>
  The record of one hidden file as the specification words it: a 10-byte length field
  padded on the left, the name, NUL, the content, CRLF CRLF.
\<close>

definition record_by_spec :: "bytes \<Rightarrow> bytes \<Rightarrow> bytes" where
  "record_by_spec file_name content =
     replicate (10 - length (decimal (length content))) 0x20 @ decimal (length content)
     @ file_name @ [0x00] @ content @ [0x0D, 0x0A, 0x0D, 0x0A]"

section \<open>Buffers used as concrete inputs\<close>

text \<open>A zip header followed by \<open>hello\<close>: the zip footer is nowhere in the buffer.\<close>

definition zip_without_footer :: bytes where
  "zip_without_footer = [0x50, 0x4B, 0x03, 0x04, 0x68, 0x65, 0x6C, 0x6C, 0x6F]"

text \<open>A JPEG header, one payload byte, the JPEG footer at index 4, one trailing byte.\<close>

definition jpg_with_footer :: bytes where
  "jpg_with_footer = [0xFF, 0xD8, 0xFF, 0x70, 0xFF, 0xD9, 0x00]"

text \<open>Two GIF89a headers, at indices 0 and 7.\<close>

definition two_gifs :: bytes where
  "two_gifs = [0x47, 0x49, 0x46, 0x38, 0x39, 0x61, 0x78,
               0x47, 0x49, 0x46, 0x38, 0x39, 0x61, 0x79, 0x7A]"

text \<open>A UTF-16 mark, NUL, the name \<open>a/b.txt\<close>, NUL.\<close>

definition slash_name :: bytes where
  "slash_name = [0xFF, 0xFE, 0x00, 0x61, 0x2F, 0x62, 0x2E, 0x74, 0x78, 0x74, 0x00]"

text \<open>The bytes of \<open>" a.zip"\<close>: a name with a leading space.\<close>

definition padded_name :: bytes where
  "padded_name = [0x20, 0x61, 0x2E, 0x7A, 0x69, 0x70]"

text \<open>
  A file system with a one-byte carrier \<open>c.png\<close> and a one-byte file \<open>a\<close>, and two
  stand-ins for the archiver: one that fails, one that yields four fixed bytes.
\<close>

definition carrier_path :: path where
  "carrier_path = [str_of ''c.png'']"

definition secret_path :: path where
  "secret_path = [str_of ''a'']"

definition small_fs :: file_system where
  "small_fs = [carrier_path \<mapsto> [0x89], secret_path \<mapsto> [0x78]]"

definition no_zip :: "file_system \<Rightarrow> path list \<Rightarrow> error + bytes" where
  "no_zip fs files = Inl ZipFailure"

definition stored_zip :: "file_system \<Rightarrow> path list \<Rightarrow> error + bytes" where
  "stored_zip fs files = Inr [0x50, 0x4B, 0x05, 0x06]"

section \<open>What the scanner finds\<close>

lemma occurs_at_bound: "occurs_at data sub j \<Longrightarrow> j \<le> length data"
  by (simp add: occurs_at_def)

lemma occurrences_from_step:
  "i \<le> length data \<Longrightarrow> occurrences_from data sub i =
     (if occurs_at data sub i then i # occurrences_from data sub (Suc i)
      else occurrences_from data sub (Suc i))"
proof -
  assume "i \<le> length data"
  then have "[i..<Suc (length data)] = i # [Suc i..<Suc (length data)]"
    by (simp add: upt_conv_Cons del: upt_Suc)
  then show ?thesis
    by (simp add: occurrences_from_def del: upt_Suc)
qed

lemma occurrences_from_beyond:
  "length data < i + length sub \<Longrightarrow> occurrences_from data sub i = []"
  by (auto simp: occurrences_from_def occurs_at_def filter_empty_conv)

lemma find_from_occurrences:
  "find_from data sub i =
     (case occurrences_from data sub i of [] \<Rightarrow> - 1 | j # js \<Rightarrow> int j)"
proof (induction data sub i rule: find_from.induct)
  case (1 data sub i)
  show ?case
  proof (cases "length data < i + length sub")
    case True
    then show ?thesis
      by (simp add: find_from.simps [of data sub i] occurrences_from_beyond)
  next
    case False
    then have le: "i \<le> length data" by simp
    show ?thesis
    proof (cases "take (length sub) (drop i data) = sub")
      case True
      with False have "occurs_at data sub i" by (simp add: occurs_at_def)
      with False True le show ?thesis
        by (simp add: find_from.simps [of data sub i] occurrences_from_step)
    next
      case ne: False
      then have "\<not> occurs_at data sub i" by (simp add: occurs_at_def)
      with False ne le "1.IH" show ?thesis
        by (simp add: find_from.simps [of data sub i] occurrences_from_step)
    qed
  qed
qed

lemma bytes_find_nat: "bytes_find data sub (int i) = find_from data sub i"
  by (simp add: bytes_find_def)

lemma bytes_find_next: "bytes_find data sub (int i + 1) = find_from data sub (Suc i)"
  using bytes_find_nat [of data sub "Suc i"] by (simp add: add.commute)

lemma scan_signature_occurrences:
  "scan_signature data entry (find_from data (fst entry) i) signatures =
     signatures @ map (hit_at entry) (occurrences_from data (fst entry) i)"
proof (induction "Suc (length data) - i" arbitrary: i signatures)
  case 0
  then have "length data < i" by simp
  then have "occurrences_from data (fst entry) i = []"
    by (simp add: occurrences_from_def)
  then show ?case
    by (simp add: find_from_occurrences scan_signature.simps)
next
  case (Suc n)
  then have le: "i \<le> length data" and n: "n = Suc (length data) - Suc i" by simp_all
  show ?case
  proof (cases "occurs_at data (fst entry) i")
    case True
    with le have "find_from data (fst entry) i = int i"
      by (simp add: find_from_occurrences occurrences_from_step)
    moreover have "scan_signature data entry (int i) signatures =
        scan_signature data entry (find_from data (fst entry) (Suc i))
          (signatures @ [hit_at entry i])"
      by (subst scan_signature.simps) (simp add: bytes_find_next hit_at_def)
    ultimately show ?thesis
      using Suc.hyps(1) [OF n] True le by (simp add: occurrences_from_step)
  next
    case False
    with le have "find_from data (fst entry) i = find_from data (fst entry) (Suc i)"
      by (simp add: find_from_occurrences occurrences_from_step)
    with Suc.hyps(1) [OF n] False le show ?thesis
      by (simp add: occurrences_from_step)
  qed
qed

lemma scan_catalog_fold:
  "fold (\<lambda>entry signatures.
           scan_signature data entry (bytes_find data (fst entry) 0) signatures) catalog acc =
     acc @ concat (map (\<lambda>entry. map (hit_at entry) (occurrences_from data (fst entry) 0)) catalog)"
proof (induction catalog arbitrary: acc)
  case Nil
  show ?case by simp
next
  case (Cons entry catalog)
  have "bytes_find data (fst entry) 0 = find_from data (fst entry) 0"
    using bytes_find_nat [of data "fst entry" 0] by simp
  then show ?case
    by (simp add: Cons.IH scan_signature_occurrences)
qed

lemma scan_catalog_occurrences:
  "scan_catalog catalog data =
     concat (map (\<lambda>entry. map (hit_at entry) (occurrences_from data (fst entry) 0)) catalog)"
  by (simp add: scan_catalog_def scan_catalog_fold)

lemma catalog_distinct: "distinct (map fst FILE_SIGNATURES)"
  by (simp add: FILE_SIGNATURES_def)

lemma filter_eq_upt: "filter (\<lambda>k. k = j) [0..<n] = (if j < n then [j] else [])"
  by (induction n) auto

lemma filter_eq_occurrences:
  "filter (\<lambda>k. k = j) (occurrences_from data sub 0) = (if occurs_at data sub j then [j] else [])"
proof -
  have "filter (\<lambda>k. k = j) (occurrences_from data sub 0) =
        filter (occurs_at data sub) (filter (\<lambda>k. k = j) [0..<Suc (length data)])"
    unfolding occurrences_from_def filter_filter by (rule filter_cong) auto
  also have "\<dots> = (if occurs_at data sub j then [j] else [])"
    using occurs_at_bound [of data sub j] by (auto simp: filter_eq_upt simp del: upt_Suc)
  finally show ?thesis .
qed

lemma hits_of_entry_at_offset:
  "filter (\<lambda>h. hit_offset h = int j) (map (hit_at entry) (occurrences_from data (fst entry) 0)) =
     (if occurs_at data (fst entry) j then [hit_at entry j] else [])"
proof -
  have "filter (\<lambda>h. hit_offset h = int j) (map (hit_at entry) (occurrences_from data (fst entry) 0)) =
        map (hit_at entry) (filter (\<lambda>k. k = j) (occurrences_from data (fst entry) 0))"
    by (simp add: filter_map comp_def hit_at_def hit_offset_def)
  then show ?thesis by (simp add: filter_eq_occurrences)
qed

lemma hits_at_offset_catalog_order:
  "filter (\<lambda>h. hit_offset h = int j) (scan_catalog catalog data) =
     map (\<lambda>entry. hit_at entry j) (filter (\<lambda>entry. occurs_at data (fst entry) j) catalog)"
  unfolding scan_catalog_occurrences
  by (induction catalog) (simp_all add: hits_of_entry_at_offset)

lemma count_hits_catalog:
  "distinct (map fst catalog) \<Longrightarrow>
   length (filter (\<lambda>h. fst h = sig \<and> hit_offset h = int j) (scan_catalog catalog data)) =
     (if sig \<in> fst ` set catalog \<and> occurs_at data sig j then 1 else 0)"
proof -
  assume d: "distinct (map fst catalog)"
  have "filter (\<lambda>h. fst h = sig \<and> hit_offset h = int j) (scan_catalog catalog data) =
        filter (\<lambda>h. fst h = sig) (filter (\<lambda>h. hit_offset h = int j) (scan_catalog catalog data))"
    by (simp add: conj_commute)
  also have "\<dots> = map (\<lambda>entry. hit_at entry j)
        (filter (\<lambda>entry. fst entry = sig) (filter (\<lambda>entry. occurs_at data (fst entry) j) catalog))"
    by (simp add: hits_at_offset_catalog_order filter_map comp_def hit_at_def)
  also have "\<dots> = map (\<lambda>entry. hit_at entry j)
        (if occurs_at data sig j then filter (\<lambda>entry. fst entry = sig) catalog else [])"
    by (auto simp: filter_empty_conv intro!: arg_cong [where f = "map _"] filter_cong)
  finally have "length (filter (\<lambda>h. fst h = sig \<and> hit_offset h = int j) (scan_catalog catalog data)) =
      (if occurs_at data sig j then length (filter (\<lambda>entry. fst entry = sig) catalog) else 0)"
    by simp
  moreover have "length (filter (\<lambda>entry. fst entry = sig) catalog) =
      (if sig \<in> fst ` set catalog then 1 else 0)"
    using d by (induction catalog) (auto simp: filter_empty_conv image_iff)
  ultimately show ?thesis by simp
qed

lemma set_occurrences_from: "set (occurrences_from data sub 0) = {j. occurs_at data sub j}"
proof -
  have "j < Suc (length data)" if "occurs_at data sub j" for j
    using occurs_at_bound [OF that] by simp
  then show ?thesis
    unfolding occurrences_from_def by (auto simp del: upt_Suc)
qed

lemma in_find_file_signatures:
  "h \<in> set (find_file_signatures data) \<longleftrightarrow>
     (\<exists>entry\<in>set FILE_SIGNATURES. \<exists>j. occurs_at data (fst entry) j \<and> h = hit_at entry j)"
  unfolding find_file_signatures_def scan_catalog_occurrences
  by (simp add: set_occurrences_from image_iff)

text \<open>
  C4. For every buffer, signature and offset, the list returned by
  \<open>find_file_signatures\<close> holds exactly one hit with that signature and offset when the
  signature is in the catalog and occurs there, and none otherwise. Occurrences that
  repeat or overlap are each reported, since the search resumes one byte after the
  previous match.
\<close>

theorem find_file_signatures_one_hit_per_occurrence:
  "length (filter (\<lambda>h. fst h = sig \<and> hit_offset h = int j) (find_file_signatures data)) =
     (if sig \<in> fst ` set FILE_SIGNATURES \<and> occurs_at data sig j then 1 else 0)"
  unfolding find_file_signatures_def filter_sort length_sort
  by (rule count_hits_catalog [OF catalog_distinct])

theorem find_file_signatures_one_hit_per_occurrence_witness:
  "length (filter (\<lambda>h. fst h = [0xFF, 0xD8, 0xFF] \<and> hit_offset h = int 2)
     (find_file_signatures [0xFF, 0xD8, 0xFF, 0xD8, 0xFF, 0x00])) = 1
   \<and> occurs_at [0xFF, 0xD8, 0xFF, 0xD8, 0xFF, 0x00] [0xFF, 0xD8, 0xFF] 0"
  using find_file_signatures_one_hit_per_occurrence
          [of "[0xFF, 0xD8, 0xFF]" 2 "[0xFF, 0xD8, 0xFF, 0xD8, 0xFF, 0x00]"]
  by (simp add: occurs_at_def FILE_SIGNATURES_def)

text \<open>
  C5. The hits are returned in non-decreasing offset order; the sort keeps the hits of
  each offset in the order the scan produced them, which is the catalog's iteration
  order: the hits at offset \<open>j\<close> are those of the catalog entries whose signature occurs
  at \<open>j\<close>, in catalog order.
\<close>

theorem find_file_signatures_sorted_stable:
  "sorted (map hit_offset (find_file_signatures data)) \<and>
   filter (\<lambda>h. hit_offset h = k) (find_file_signatures data) =
     filter (\<lambda>h. hit_offset h = k) (scan_catalog FILE_SIGNATURES data) \<and>
   filter (\<lambda>h. hit_offset h = int j) (find_file_signatures data) =
     map (\<lambda>entry. hit_at entry j)
       (filter (\<lambda>entry. occurs_at data (fst entry) j) FILE_SIGNATURES)"
  by (simp add: find_file_signatures_def sort_key_stable hits_at_offset_catalog_order)

theorem find_file_signatures_sorted_stable_witness:
  "sorted (map hit_offset (find_file_signatures [0x00, 0xFF, 0xFE, 0x00, 0x00])) \<and>
   filter (\<lambda>h. hit_offset h = int 1) (find_file_signatures [0x00, 0xFF, 0xFE, 0x00, 0x00]) =
     [([0xFF, 0xFE], 1, ''txt'', None), ([0xFF, 0xFE, 0x00, 0x00], 1, ''txt'', None)]"
  using find_file_signatures_sorted_stable
          [of "[0x00, 0xFF, 0xFE, 0x00, 0x00]" 1 1, THEN conjunct1]
        find_file_signatures_sorted_stable
          [of "[0x00, 0xFF, 0xFE, 0x00, 0x00]" 1 1, THEN conjunct2, THEN conjunct2]
  by (simp add: occurs_at_def FILE_SIGNATURES_def hit_at_def)

lemma scan_signature_from_start:
  "scan_signature data entry (bytes_find data (fst entry) 0) [] =
     map (hit_at entry) (occurrences_from data (fst entry) 0)"
  using bytes_find_nat [of data "fst entry" 0] scan_signature_occurrences [of data entry 0 "[]"]
  by simp

lemma hit_offset_hit_at: "hit_offset (hit_at entry j) = int j"
  by (simp add: hit_offset_def hit_at_def)

lemma occurrences_strictly_increasing: "sorted_wrt (<) (occurrences_from data sub i)"
  unfolding occurrences_from_def by (rule sorted_wrt_filter) (simp del: upt_Suc)

lemma entry_offsets_strictly_increasing:
  "sorted_wrt (<) (map hit_offset (map (hit_at entry) (occurrences_from data sub i)))"
  using occurrences_strictly_increasing [of data sub i]
  by (simp add: sorted_wrt_map hit_offset_hit_at)

lemma distinct_keys_scan_catalog:
  "distinct (map fst catalog) \<Longrightarrow>
   distinct (map (\<lambda>h. (fst h, hit_offset h)) (scan_catalog catalog data))"
  unfolding scan_catalog_occurrences
proof (induction catalog)
  case Nil
  show ?case by simp
next
  case (Cons entry catalog)
  let ?key = "\<lambda>h::hit. (fst h, hit_offset h)"
  let ?own = "map ?key (map (hit_at entry) (occurrences_from data (fst entry) 0))"
  let ?rest = "map ?key (concat (map (\<lambda>entry. map (hit_at entry)
                  (occurrences_from data (fst entry) 0)) catalog))"
  have "distinct (occurrences_from data (fst entry) 0)"
    using occurrences_strictly_increasing [of data "fst entry" 0]
    by (simp add: strict_sorted_iff)
  then have own: "distinct ?own"
    by (simp add: distinct_map comp_def hit_offset_def hit_at_def inj_on_def)
  have disjoint: False if "x \<in> set ?own" and "x \<in> set ?rest" for x
  proof -
    from that(1) have "fst x = fst entry"
      by (auto simp: hit_at_def)
    moreover from that(2) have "fst x \<in> fst ` set catalog"
      by (force simp: hit_at_def)
    ultimately show False
      using Cons.prems by simp
  qed
  then have "set ?own \<inter> set ?rest = {}"
    by blast
  with own Cons show ?case by simp
qed

lemma distinct_map_sort_key:
  "distinct (map f (sort_key k xs)) \<longleftrightarrow> distinct (map f xs)"
  by (simp add: distinct_map)

text \<open>
  C10. No (signature, offset) pair is reported twice by \<open>find_file_signatures\<close>: the
  pairs of the returned hits are pairwise distinct, and the offsets appended for one
  catalog entry, before the sort, are strictly increasing.
\<close>

theorem find_file_signatures_no_duplicates:
  "distinct (map (\<lambda>h. (fst h, hit_offset h)) (find_file_signatures data)) \<and>
   (\<forall>entry\<in>set FILE_SIGNATURES.
      sorted_wrt (<) (map hit_offset
        (scan_signature data entry (bytes_find data (fst entry) 0) [])))"
  unfolding find_file_signatures_def distinct_map_sort_key scan_signature_from_start
  using distinct_keys_scan_catalog [OF catalog_distinct] entry_offsets_strictly_increasing
  by blast

theorem find_file_signatures_no_duplicates_witness:
  "distinct (map (\<lambda>h. (fst h, hit_offset h)) (find_file_signatures [0xFF, 0xD8, 0xFF, 0xD8, 0xFF])) \<and>
   sorted_wrt (<) (map hit_offset
        (scan_signature [0xFF, 0xD8, 0xFF, 0xD8, 0xFF] ([0xFF, 0xD8, 0xFF], ''jpg'', Some [0xFF, 0xD9])
           (bytes_find [0xFF, 0xD8, 0xFF, 0xD8, 0xFF] [0xFF, 0xD8, 0xFF] 0) []))"
  using find_file_signatures_no_duplicates [of "[0xFF, 0xD8, 0xFF, 0xD8, 0xFF]"]
  by (simp add: FILE_SIGNATURES_def)

text \<open>
  C8. When no catalog signature occurs anywhere in the buffer (the empty buffer
  included), \<open>find_file_signatures\<close> returns the empty list and
  \<open>extract_files_from_image\<close> takes its early return: it yields the file system
  unchanged, with no error.
\<close>

theorem no_signature_no_files:
  assumes "fs image_path = Some data"
    and "\<forall>entry\<in>set FILE_SIGNATURES. \<forall>j. \<not> occurs_at data (fst entry) j"
  shows "find_file_signatures data = [] \<and>
         extract_files_from_image can_open fs image_path output_directory = Inr fs"
proof -
  have "h \<notin> set (find_file_signatures data)" for h
    using assms by (simp add: in_find_file_signatures)
  then have "find_file_signatures data = []"
    by (cases "find_file_signatures data") auto
  with assms(1) show ?thesis
    by (simp add: extract_files_from_image_def)
qed

theorem no_signature_no_files_witness:
  "find_file_signatures [] = [] \<and>
   extract_files_from_image (\<lambda>p. False) [carrier_path \<mapsto> []] carrier_path [str_of ''out'']
     = Inr [carrier_path \<mapsto> []] \<and>
   find_file_signatures [0x89] = [] \<and>
   extract_files_from_image (\<lambda>p. True) small_fs carrier_path [str_of ''out''] = Inr small_fs"
  using no_signature_no_files [of "[carrier_path \<mapsto> []]" carrier_path "[]" "\<lambda>p. False"
          "[str_of ''out'']"]
        no_signature_no_files [of small_fs carrier_path "[0x89]" "\<lambda>p. True" "[str_of ''out'']"]
  by (simp add: occurs_at_def FILE_SIGNATURES_def small_fs_def carrier_path_def
        secret_path_def str_of_def)

section \<open>Boundary resolution\<close>

lemma catalog_footer:
  "entry \<in> set FILE_SIGNATURES \<Longrightarrow> snd (snd entry) = Some ft \<Longrightarrow>
     ft \<noteq> [] \<and> length ft \<le> Suc (length (fst entry))"
  by (auto simp: FILE_SIGNATURES_def)

lemma nth_find_file_signatures:
  assumes "i < length (find_file_signatures data)"
  obtains entry j where "entry \<in> set FILE_SIGNATURES" and "occurs_at data (fst entry) j"
    and "find_file_signatures data ! i = hit_at entry j"
proof -
  from assms have "find_file_signatures data ! i \<in> set (find_file_signatures data)"
    by simp
  then show thesis
    using that by (auto simp: in_find_file_signatures)
qed

lemma find_from_absent:
  "find_from data sub i = - 1 \<longleftrightarrow> (\<forall>j\<ge>i. \<not> occurs_at data sub j)"
proof -
  have "find_from data sub i = - 1 \<longleftrightarrow> occurrences_from data sub i = []"
    by (simp add: find_from_occurrences split: list.split)
  also have "\<dots> \<longleftrightarrow> (\<forall>j\<ge>i. \<not> occurs_at data sub j)"
    unfolding occurrences_from_def filter_empty_conv
    using occurs_at_bound [of data sub] by (auto simp del: upt_Suc simp: less_Suc_eq_le)
  finally show ?thesis .
qed

lemma find_from_first:
  assumes "i \<le> f" and "occurs_at data sub f" and "\<forall>j. i \<le> j \<and> j < f \<longrightarrow> \<not> occurs_at data sub j"
  shows "find_from data sub i = int f"
proof -
  from assms(2) have "f < Suc (length data)"
    using occurs_at_bound [of data sub f] by simp
  then have "[f..<Suc (length data)] = f # [Suc f..<Suc (length data)]"
    by (rule upt_conv_Cons)
  moreover have "[i..<f + (Suc (length data) - f)] = [i..<f] @ [f..<f + (Suc (length data) - f)]"
    using assms(1) by (rule upt_add_eq_append)
  moreover have "f + (Suc (length data) - f) = Suc (length data)"
    using \<open>f < Suc (length data)\<close> by simp
  ultimately have "[i..<Suc (length data)] = [i..<f] @ f # [Suc f..<Suc (length data)]"
    by simp
  moreover have "filter (occurs_at data sub) [i..<f] = []"
    using assms(3) by (simp add: filter_empty_conv)
  ultimately have "occurrences_from data sub i = f # occurrences_from data sub (Suc f)"
    using assms(2) by (simp add: occurrences_from_def del: upt_Suc)
  then show ?thesis
    by (simp add: find_from_occurrences)
qed

lemma find_from_found:
  assumes "find_from data sub i = int f"
  shows "i \<le> f \<and> occurs_at data sub f"
proof -
  from assms obtain js where "occurrences_from data sub i = f # js"
    by (auto simp: find_from_occurrences split: list.splits)
  then have "f \<in> set (occurrences_from data sub i)" by simp
  then show ?thesis
    by (simp add: occurrences_from_def del: upt_Suc)
qed

lemma find_from_cases:
  "find_from data sub i = - 1 \<or> (\<exists>f. find_from data sub i = int f)"
  by (simp add: find_from_occurrences split: list.split)

lemma py_slice_nonneg:
  "0 \<le> a \<Longrightarrow> 0 \<le> b \<Longrightarrow> py_slice xs a b = take (nat b - nat a) (drop (nat a) xs)"
  by (auto simp: py_slice_def clip_index_def Let_def)

lemma span_end_footer:
  assumes "signatures ! i = hit_at entry j" and "snd (snd entry) = Some ft" and "ft \<noteq> []"
  shows "span_end data signatures i = find_from data ft j + int (length ft)"
  using assms by (simp add: span_end_def hit_at_def truthy_def bytes_find_nat)

lemma span_end_no_footer:
  assumes "snd (snd (snd (signatures ! i))) = None"
  shows "span_end data signatures i =
     (if i + 1 < length signatures then hit_offset (signatures ! (i + 1))
      else int (length data))"
  using assms by (cases "signatures ! i") (simp add: span_end_def truthy_def)

lemma hit_offset_bounds:
  assumes "i < length (find_file_signatures data)"
  shows "0 \<le> hit_offset (find_file_signatures data ! i) \<and>
         hit_offset (find_file_signatures data ! i) \<le> int (length data)"
proof -
  from assms obtain entry j where "occurs_at data (fst entry) j"
      and "find_file_signatures data ! i = hit_at entry j"
    by (rule nth_find_file_signatures)
  then show ?thesis
    using occurs_at_bound [of data "fst entry" j] by (simp add: hit_offset_hit_at)
qed

lemma extracted_slice:
  "snd (extract_one data signatures i) =
     py_slice data (hit_offset (signatures ! i)) (span_end data signatures i)"
  by (cases "signatures ! i") (simp add: extract_one_def Let_def hit_offset_def)

lemma find_from_eq_iff:
  "find_from data sub i = int f \<longleftrightarrow>
     (i \<le> f \<and> occurs_at data sub f \<and> (\<forall>j. i \<le> j \<and> j < f \<longrightarrow> \<not> occurs_at data sub j))"
proof
  assume found: "find_from data sub i = int f"
  then obtain js where js: "occurrences_from data sub i = f # js"
    by (auto simp: find_from_occurrences split: list.splits)
  have "\<not> occurs_at data sub j" if "i \<le> j" and "j < f" for j
  proof
    assume occ: "occurs_at data sub j"
    with that have "j \<in> set (occurrences_from data sub i)"
      using occurs_at_bound [OF occ] by (simp add: occurrences_from_def del: upt_Suc)
    moreover have "sorted_wrt (<) (f # js)"
      using occurrences_strictly_increasing [of data sub i] js by simp
    ultimately show False
      using that js by auto
  qed
  with find_from_found [OF found] show
    "i \<le> f \<and> occurs_at data sub f \<and> (\<forall>j. i \<le> j \<and> j < f \<longrightarrow> \<not> occurs_at data sub j)"
    by blast
next
  assume "i \<le> f \<and> occurs_at data sub f \<and> (\<forall>j. i \<le> j \<and> j < f \<longrightarrow> \<not> occurs_at data sub j)"
  then show "find_from data sub i = int f"
    by (intro find_from_first) simp_all
qed

lemma span_end_footer_absent:
  assumes "signatures ! i = hit_at entry j" and "snd (snd entry) = Some ft" and "ft \<noteq> []"
    and "\<forall>k\<ge>j. \<not> occurs_at data ft k"
  shows "span_end data signatures i = int (length ft) - 1"
  using span_end_footer [OF assms(1-3), of data] assms(4) find_from_absent [of data ft j]
  by simp

lemma hits_zip_without_footer:
  "find_file_signatures zip_without_footer =
     [([0x50, 0x4B, 0x03, 0x04], 0, ''zip'', Some [0x50, 0x4B, 0x05, 0x06])]"
  by code_simp

lemma hits_jpg_with_footer:
  "find_file_signatures jpg_with_footer = [([0xFF, 0xD8, 0xFF], 0, ''jpg'', Some [0xFF, 0xD9])]"
  by code_simp

lemma footer_jpg_with_footer: "find_from jpg_with_footer [0xFF, 0xD9] 0 = int 4"
  by code_simp

lemma hits_two_gifs:
  "find_file_signatures two_gifs =
     [([0x47, 0x49, 0x46, 0x38, 0x39, 0x61], 0, ''gif'', None),
      ([0x47, 0x49, 0x46, 0x38, 0x39, 0x61], 7, ''gif'', None)]"
  by code_simp

text \<open>
  C1. On \<open>zip_without_footer\<close> the only hit is the zip header at offset 0, and its footer
  is not found: \<open>data.find\<close> returns \<open>-1\<close>, to which the length of the footer is
  added, so \<open>end\<close> is 3 while the buffer has 9 bytes, and the file written in that
  iteration holds the first three bytes only.
\<close>

theorem zip_without_footer_span_end:
  "find_file_signatures zip_without_footer =
     [([0x50, 0x4B, 0x03, 0x04], 0, ''zip'', Some [0x50, 0x4B, 0x05, 0x06])] \<and>
   bytes_find zip_without_footer [0x50, 0x4B, 0x05, 0x06] 0 = - 1 \<and>
   span_end zip_without_footer (find_file_signatures zip_without_footer) 0 = 3 \<and>
   int (length zip_without_footer) = 9 \<and>
   extract_one zip_without_footer (find_file_signatures zip_without_footer) 0 =
     (str_of ''extracted_file.zip'', [0x50, 0x4B, 0x03])"
  by code_simp

text \<open>
  C2. For a hit whose catalog entry has a footer, when the first occurrence of the footer
  at or after the hit's offset is at index \<open>f\<close>, the resolved \<open>end\<close> is
  \<open>f + len(footer)\<close>.
\<close>

theorem span_end_at_footer_end:
  assumes "i < length (find_file_signatures data)"
    and "find_file_signatures data ! i = (signature, offset, extension, Some footer)"
    and "offset \<le> int f" and "occurs_at data footer f"
    and "\<forall>j. offset \<le> int j \<and> j < f \<longrightarrow> \<not> occurs_at data footer j"
  shows "span_end data (find_file_signatures data) i = int f + int (length footer)"
proof -
  let ?sigs = "find_file_signatures data"
  from assms(1) obtain entry j where entry: "entry \<in> set FILE_SIGNATURES"
      and hit: "?sigs ! i = hit_at entry j"
    by (rule nth_find_file_signatures)
  with assms(2) have footer: "snd (snd entry) = Some footer" and offset: "offset = int j"
    by (simp_all add: hit_at_def)
  from entry footer have "footer \<noteq> []"
    using catalog_footer by blast
  with hit footer have "span_end data ?sigs i = find_from data footer j + int (length footer)"
    by (rule span_end_footer)
  moreover have "find_from data footer j = int f"
    using assms(3-5) offset by (intro find_from_first) simp_all
  ultimately show ?thesis by simp
qed

theorem span_end_at_footer_end_witness:
  "span_end jpg_with_footer (find_file_signatures jpg_with_footer) 0 = 6
   \<and> length jpg_with_footer = 7"
proof -
  have first: "(0::nat) \<le> 4 \<and> occurs_at jpg_with_footer [0xFF, 0xD9] 4 \<and>
      (\<forall>j::nat. 0 \<le> j \<and> j < 4 \<longrightarrow> \<not> occurs_at jpg_with_footer [0xFF, 0xD9] j)"
    by (rule iffD1 [OF find_from_eq_iff footer_jpg_with_footer])
  then have "span_end jpg_with_footer (find_file_signatures jpg_with_footer) 0 =
      int 4 + int (length [0xFF, 0xD9 :: byte])"
    by (intro span_end_at_footer_end [where signature = "[0xFF, 0xD8, 0xFF]" and offset = 0 and extension = "''jpg''"])
       (simp_all add: hits_jpg_with_footer)
  then show ?thesis by (simp add: jpg_with_footer_def)
qed

text \<open>
  C3. For a hit whose catalog entry has no footer, \<open>end\<close> is the offset of the next
  hit of the sorted list, or the buffer length for the last hit; \<open>end\<close> is not below
  the hit's own offset, and the bytes written in that iteration are exactly those from
  the offset up to \<open>end\<close>.
\<close>

theorem span_end_no_footer_next_hit:
  assumes "i < length (find_file_signatures data)"
    and "snd (snd (snd (find_file_signatures data ! i))) = None"
  shows "span_end data (find_file_signatures data) i =
           (if i + 1 < length (find_file_signatures data)
            then hit_offset (find_file_signatures data ! (i + 1))
            else int (length data))
         \<and> hit_offset (find_file_signatures data ! i) \<le> span_end data (find_file_signatures data) i
         \<and> snd (extract_one data (find_file_signatures data) i) =
             take (nat (span_end data (find_file_signatures data) i)
                   - nat (hit_offset (find_file_signatures data ! i)))
               (drop (nat (hit_offset (find_file_signatures data ! i))) data)
         \<and> int (length (snd (extract_one data (find_file_signatures data) i))) =
             span_end data (find_file_signatures data) i
             - hit_offset (find_file_signatures data ! i)"
proof -
  let ?sigs = "find_file_signatures data"
  let ?end = "span_end data ?sigs i"
  let ?start = "hit_offset (?sigs ! i)"
  have end_eq: "?end = (if i + 1 < length ?sigs then hit_offset (?sigs ! (i + 1))
                        else int (length data))"
    using assms(2) by (rule span_end_no_footer)
  have start: "0 \<le> ?start" "?start \<le> int (length data)"
    using hit_offset_bounds [OF assms(1)] by simp_all
  have "sorted (map hit_offset ?sigs)"
    by (simp add: find_file_signatures_def)
  then have "i + 1 < length ?sigs \<Longrightarrow> ?start \<le> hit_offset (?sigs ! (i + 1))"
    using sorted_nth_mono [of "map hit_offset ?sigs" i "i + 1"] by simp
  with end_eq start have le: "?start \<le> ?end"
    by simp
  have upper: "?end \<le> int (length data)"
    using end_eq hit_offset_bounds [of "i + 1" data] by simp
  have slice: "snd (extract_one data (find_file_signatures data) i) =
      take (nat ?end - nat ?start) (drop (nat ?start) data)"
    using start le by (simp add: extracted_slice py_slice_nonneg)
  have "int (length (snd (extract_one data (find_file_signatures data) i))) = ?end - ?start"
    unfolding slice using start le upper by simp
  with end_eq le slice show ?thesis
    by simp
qed

theorem span_end_no_footer_next_hit_witness:
  "span_end two_gifs (find_file_signatures two_gifs) 0 = 7 \<and>
   snd (extract_one two_gifs (find_file_signatures two_gifs) 0) = [0x47, 0x49, 0x46, 0x38, 0x39, 0x61, 0x78]"
proof -
  have idx: "0 < length (find_file_signatures two_gifs)"
    by (simp add: hits_two_gifs)
  have no_footer: "snd (snd (snd (find_file_signatures two_gifs ! 0))) = None"
    by (simp add: hits_two_gifs)
  note span = span_end_no_footer_next_hit [OF idx no_footer]
  from span have end_eq: "span_end two_gifs (find_file_signatures two_gifs) 0 = 7"
    by (simp add: hits_two_gifs hit_offset_def)
  from span end_eq have "snd (extract_one two_gifs (find_file_signatures two_gifs) 0) = take 7 two_gifs"
    by (simp add: hits_two_gifs hit_offset_def)
  with end_eq show ?thesis
    by (simp add: two_gifs_def)
qed

text \<open>
  C6. For every hit of the sorted list, the resolved \<open>end\<close> is at most the buffer
  length: whether the footer is found, is not found, or the format has none.
\<close>

theorem span_end_within_buffer:
  assumes "i < length (find_file_signatures data)"
  shows "span_end data (find_file_signatures data) i \<le> int (length data)"
proof -
  let ?sigs = "find_file_signatures data"
  from assms obtain entry j where entry: "entry \<in> set FILE_SIGNATURES"
      and occ: "occurs_at data (fst entry) j" and hit: "?sigs ! i = hit_at entry j"
    by (rule nth_find_file_signatures)
  show ?thesis
  proof (cases "snd (snd entry)")
    case None
    with hit have "snd (snd (snd (?sigs ! i))) = None"
      by (simp add: hit_at_def)
    then show ?thesis
      using hit_offset_bounds [of "i + 1" data] by (simp add: span_end_no_footer)
  next
    case (Some ft)
    with entry have ft: "ft \<noteq> []" "length ft \<le> Suc (length (fst entry))"
      using catalog_footer by blast+
    from hit Some ft(1) have end_eq: "span_end data ?sigs i = find_from data ft j + int (length ft)"
      by (rule span_end_footer)
    from find_from_cases [of data ft j] show ?thesis
    proof
      assume "find_from data ft j = - 1"
      with end_eq ft occ show ?thesis
        by (simp add: occurs_at_def)
    next
      assume "\<exists>f. find_from data ft j = int f"
      then obtain f where f: "find_from data ft j = int f" ..
      then have "occurs_at data ft f"
        by (simp add: find_from_found)
      with end_eq f show ?thesis
        by (simp add: occurs_at_def)
    qed
  qed
qed

theorem span_end_within_buffer_witness:
  "span_end zip_without_footer (find_file_signatures zip_without_footer) 0
     \<le> int (length zip_without_footer) \<and>
   span_end jpg_with_footer (find_file_signatures jpg_with_footer) 0
     \<le> int (length jpg_with_footer) \<and>
   span_end two_gifs (find_file_signatures two_gifs) 0 \<le> int (length two_gifs)"
  using span_end_within_buffer [of 0 zip_without_footer]
        span_end_within_buffer [of 0 jpg_with_footer]
        span_end_within_buffer [of 0 two_gifs]
  by (simp add: hits_zip_without_footer hits_jpg_with_footer hits_two_gifs)

section \<open>Writing the extracted files\<close>

text \<open>
  A name found in the slice may contain \<open>/\<close>. The file then lies in a directory below
  the output directory; where only the output directory exists it cannot be opened, the
  exception ends the run and \<open>main\<close> exits with status 1.
\<close>

lemma hits_slash_name: "find_file_signatures slash_name = [([0xFF, 0xFE], 0, ''txt'', None)]"
  by code_simp

lemma extract_slash_name:
  "extract_one slash_name [([0xFF, 0xFE], 0, ''txt'', None)] 0 =
     (str_of ''extracted_a/b.txt'', slash_name)"
  by (simp add: extract_one_def span_end_def truthy_def py_slice_def clip_index_def
        extract_filename_def slash_name_def str_of_def strip_def is_space_def Let_def)

lemma join_slash_name:
  "join_path [str_of ''out''] (str_of ''extracted_a/b.txt'') =
     [str_of ''out'', str_of ''extracted_a'', str_of ''b.txt'']"
  by (simp add: join_path_def str_of_def)

lemma slash_in_name_not_written:
  "extract_files_from_image (\<lambda>p. butlast p = [str_of ''out'']) [carrier_path \<mapsto> slash_name]
     carrier_path [str_of ''out''] = Inl OSError"
  by (simp add: extract_files_from_image_def hits_slash_name extract_slash_name join_slash_name)

section \<open>The filename heuristic\<close>

lemma first_named_part_find:
  "first_named_part parts extension = map_option strip (List.find (names_format extension) parts)"
  by (induction parts) (simp_all add: names_format_def)

lemma py_slice_first_100: "py_slice data 0 100 = take 100 data"
  by (simp add: py_slice_nonneg)

lemma str_of_literals:
  "str_of ''zip'' = [0x7A, 0x69, 0x70]"
  "str_of ''txt'' = [0x74, 0x78, 0x74]"
  "str_of ''jpg'' = [0x6A, 0x70, 0x67]"
  "str_of ''file.'' = [0x66, 0x69, 0x6C, 0x65, 0x2E]"
  "str_of ''a.zip'' = [0x61, 0x2E, 0x7A, 0x69, 0x70]"
  "str_of '' a.zip'' = [0x20, 0x61, 0x2E, 0x7A, 0x69, 0x70]"
  "str_of ''a.txt'' = [0x61, 0x2E, 0x74, 0x78, 0x74]"
  "str_of ''file.jpg'' = [0x66, 0x69, 0x6C, 0x65, 0x2E, 0x6A, 0x70, 0x67]"
  by (simp_all add: str_of_def)

text \<open>
  C7. \<open>extract_filename\<close> decodes the first 100 bytes of the slice, dropping what is
  malformed, splits the text at NUL and takes the first fragment that is longer than one
  character, contains a dot and ends, after its last dot, in the format tag. It returns
  that fragment with the whitespace at both ends removed, and \<open>file.<format>\<close> when
  there is no such fragment.
\<close>

theorem extract_filename_first_match_stripped:
  "extract_filename data 0 extension =
     (case List.find (names_format (str_of extension))
             (split_on 0 (utf8_decode_ignore (take 100 data))) of
        Some part \<Rightarrow> strip part
      | None \<Rightarrow> str_of ''file.'' @ str_of extension)"
  by (simp add: extract_filename_def py_slice_first_100 first_named_part_find
        split: option.split)

theorem extract_filename_first_match_stripped_witness:
  "extract_filename [0xFF, 0xFE, 0x00, 0x20, 0x61, 0x2E, 0x74, 0x78, 0x74, 0x00] 0 ''txt''
     = str_of ''a.txt'' \<and>
   extract_filename [0xFF, 0xD8, 0xFF, 0x70, 0xFF, 0xD9] 0 ''jpg'' = str_of ''file.jpg''"
  by (simp add: extract_filename_first_match_stripped names_format_def str_of_literals strip_def is_space_def)

text \<open>
  On \<open>" a.zip"\<close> the fragment found is \<open>" a.zip"\<close>, and the name returned is
  \<open>"a.zip"\<close>: the fragment is not returned as it stands.
\<close>

theorem extract_filename_strips_fragment:
  "extract_filename padded_name 0 ''zip'' = str_of ''a.zip'' \<and>
   filename_by_spec padded_name ''zip'' = str_of '' a.zip'' \<and>
   extract_filename padded_name 0 ''zip'' \<noteq> filename_by_spec padded_name ''zip''"
  by (simp add: extract_filename_def filename_by_spec_def names_format_def py_slice_first_100
        padded_name_def str_of_literals strip_def is_space_def)

section \<open>The writer\<close>

lemma length_decimal: "0 < k \<Longrightarrow> n < 10 ^ k \<Longrightarrow> length (decimal n) \<le> k"
proof (induction k arbitrary: n)
  case 0
  then show ?case by simp
next
  case (Suc k)
  show ?case
  proof (cases "n < 10")
    case True
    then show ?thesis by (simp add: decimal.simps [of n])
  next
    case False
    with Suc.prems have "0 < k"
      by (cases k) simp_all
    moreover from Suc.prems have "n div 10 < 10 ^ k"
      by (simp add: less_mult_imp_div_less mult.commute)
    ultimately have "length (decimal (n div 10)) \<le> k"
      by (rule Suc.IH)
    with False show ?thesis by (simp add: decimal.simps [of n])
  qed
qed

lemma write_records_single:
  assumes "fs file_path = Some content" and "utf8_encode (path_name file_path) = Inr file_name"
    and "file_path \<noteq> out"
  shows "write_records flushed fs out chunks [file_path] =
     Inr (chunks @ [format_left LENGTH_FIELD_SIZE (length content) @ file_name
                    @ FILENAME_SEPARATOR, content, SEPARATOR])"
  using assms by (simp add: while_open_def Let_def)

lemma concatenate_single:
  assumes "fs image_path = Some image_data" and "can_open out"
    and "fs file_path = Some content"
    and "utf8_encode (path_name file_path) = Inr file_name" and "file_path \<noteq> out"
  shows "concatenate_image_and_files can_open flushed fs image_path None [file_path] out =
     Inr (fs(out \<mapsto> image_data @ format_left LENGTH_FIELD_SIZE (length content) @ file_name
                      @ FILENAME_SEPARATOR @ content @ SEPARATOR))"
proof -
  have "write_records flushed fs out [image_data] [file_path] =
     Inr ([image_data] @ [format_left LENGTH_FIELD_SIZE (length content) @ file_name
                          @ FILENAME_SEPARATOR, content, SEPARATOR])"
    using assms(3-5) by (rule write_records_single)
  with assms(1,2) show ?thesis
    by (simp add: concatenate_image_and_files_def path_truthy_def)
qed

lemma concatenate_zip:
  assumes "fs image_path = Some image_data" and "can_open out"
    and "fs zip_file = Some zip_data" and "zip_file \<noteq> []" and "zip_file \<noteq> out"
  shows "concatenate_image_and_files can_open flushed fs image_path (Some zip_file) [] out =
     Inr (fs(out \<mapsto> image_data @ zip_data))"
  using assms by (simp add: concatenate_image_and_files_def while_open_def path_truthy_def)

lemma hide_files_single:
  assumes "fs image_file = Some image_data" and "can_open (output_image_name image_file)"
    and "fs file_path = Some content"
    and "utf8_encode (path_name file_path) = Inr file_name"
    and "file_path \<noteq> output_image_name image_file"
  shows "hide_files can_open flushed create_zip zip_file fs image_file [file_path] =
     Inr (fs(output_image_name image_file \<mapsto>
            image_data @ format_left LENGTH_FIELD_SIZE (length content) @ file_name
            @ FILENAME_SEPARATOR @ content @ SEPARATOR))"
  using assms
  by (simp add: hide_files_def validate_inputs_def path_truthy_def concatenate_single)

lemma hide_files_many:
  assumes "fs image_file = Some image_data" and "can_open (output_image_name image_file)"
    and "1 < length files_to_hide"
    and "\<forall>f\<in>set files_to_hide. fs f \<noteq> None"
    and "create_zip fs files_to_hide = Inr zip_data"
    and "zip_file \<noteq> []" and "zip_file \<noteq> image_file"
    and "zip_file \<noteq> output_image_name image_file"
  shows "hide_files can_open flushed create_zip zip_file fs image_file files_to_hide =
     Inr ((fs(zip_file \<mapsto> zip_data,
              output_image_name image_file \<mapsto> image_data @ zip_data))(zip_file := None))"
proof -
  have "validate_inputs fs image_file files_to_hide = Inr ()"
    using assms(1,4) by (simp add: validate_inputs_def list_ex_iff)
  moreover have "concatenate_image_and_files can_open flushed (fs(zip_file \<mapsto> zip_data))
      image_file (Some zip_file) [] (output_image_name image_file) =
      Inr ((fs(zip_file \<mapsto> zip_data))(output_image_name image_file \<mapsto> image_data @ zip_data))"
    using assms(1,2,6-8) by (intro concatenate_zip) simp_all
  ultimately show ?thesis
    using assms(3,5,6) by (simp add: hide_files_def path_truthy_def)
qed

lemma small_fs_lookup:
  "small_fs carrier_path = Some [0x89]" "small_fs secret_path = Some [0x78]"
  by (simp_all add: small_fs_def carrier_path_def secret_path_def str_of_def)

lemma output_of_carrier:
  "output_image_name carrier_path = [str_of ''c_with_hidden_files.png'']"
  by (simp add: output_image_name_def path_stem_def path_suffix_def suffix_start_def
        path_name_def carrier_path_def str_of_def Let_def)

lemma secret_name: "utf8_encode (path_name secret_path) = Inr [0x61]"
  by (simp add: path_name_def secret_path_def str_of_def encode_point_def)

lemma decimal_one: "decimal 1 = [0x31]"
  by (simp add: decimal.simps)

lemma length_field_one:
  "decimal (Suc 0) = [0x31]"
  "replicate 9 (0x20 :: byte) = [0x20, 0x20, 0x20, 0x20, 0x20, 0x20, 0x20, 0x20, 0x20]"
  using decimal_one by (simp_all add: numeral_eq_Suc)

text \<open>
  When the file to hide is the output file itself, it has been emptied by the time its
  size and content are read: with nothing flushed, the record gives the length \<open>0\<close>
  and no content. Likewise an archive that is the output file itself is read as empty.
\<close>

lemma hiding_the_output_itself:
  "hide_files (\<lambda>p. True) unflushed no_zip [str_of ''z.zip'']
       (small_fs(output_image_name carrier_path \<mapsto> [0x79]))
       carrier_path [output_image_name carrier_path] =
     Inr (small_fs(output_image_name carrier_path \<mapsto>
            [0x89] @ [0x30, 0x20, 0x20, 0x20, 0x20, 0x20, 0x20, 0x20, 0x20, 0x20]
            @ [0x63, 0x5F, 0x77, 0x69, 0x74, 0x68, 0x5F, 0x68, 0x69, 0x64, 0x64, 0x65, 0x6E,
               0x5F, 0x66, 0x69, 0x6C, 0x65, 0x73, 0x2E, 0x70, 0x6E, 0x67]
            @ [0x00] @ [] @ [0x0D, 0x0A, 0x0D, 0x0A]))"
proof -
  have name: "utf8_encode (path_name (output_image_name carrier_path)) =
      Inr [0x63, 0x5F, 0x77, 0x69, 0x74, 0x68, 0x5F, 0x68, 0x69, 0x64, 0x64, 0x65, 0x6E,
           0x5F, 0x66, 0x69, 0x6C, 0x65, 0x73, 0x2E, 0x70, 0x6E, 0x67]"
    by (simp add: output_of_carrier path_name_def str_of_def encode_point_def)
  have differ: "carrier_path \<noteq> output_image_name carrier_path"
    unfolding output_of_carrier by (simp add: carrier_path_def str_of_def)
  have zero: "format_left LENGTH_FIELD_SIZE 0 =
      [0x30, 0x20, 0x20, 0x20, 0x20, 0x20, 0x20, 0x20, 0x20, 0x20]"
    by (simp add: format_left_def LENGTH_FIELD_SIZE_def decimal.simps length_field_one)
  show ?thesis
    using differ small_fs_lookup(1)
    by (simp add: hide_files_def validate_inputs_def path_truthy_def
          concatenate_image_and_files_def while_open_def unflushed_def name zero
          FILENAME_SEPARATOR_def SEPARATOR_def)
qed

lemma archive_is_the_output:
  assumes "fs image_path = Some image_data" and "out \<noteq> []"
  shows "concatenate_image_and_files (\<lambda>p. True) unflushed fs image_path (Some out) [] out =
     Inr (fs(out \<mapsto> image_data))"
  using assms
  by (simp add: concatenate_image_and_files_def while_open_def unflushed_def path_truthy_def)

text \<open>
  C9. On a run where the carrier is readable and the output file can be created: hiding
  exactly one file that is readable, has a name that can be encoded, is not the output
  file itself and is shorter than \<open>10^10\<close> bytes writes the carrier bytes followed by one
  record, made of a length field of 10 bytes (the decimal length followed by spaces),
  the name, NUL, the content and CRLF CRLF. Hiding more than one file, once the archive
  is created under a name that is neither the carrier's nor the output's, writes the
  carrier bytes followed by the archive's bytes and nothing else; the temporary archive
  is removed.
\<close>

theorem hide_files_output:
  assumes "fs image_file = Some image_data" and "can_open (output_image_name image_file)"
  shows "(files_to_hide = [file_path] \<and> fs file_path = Some content
            \<and> utf8_encode (path_name file_path) = Inr file_name
            \<and> file_path \<noteq> output_image_name image_file
            \<and> length content < 10 ^ 10 \<longrightarrow>
          hide_files can_open flushed create_zip zip_file fs image_file files_to_hide =
            Inr (fs(output_image_name image_file \<mapsto>
                   image_data @ decimal (length content)
                   @ replicate (10 - length (decimal (length content))) 0x20
                   @ file_name @ [0x00] @ content @ [0x0D, 0x0A, 0x0D, 0x0A]))
          \<and> length (decimal (length content)
                      @ replicate (10 - length (decimal (length content))) (0x20 :: byte)) = 10)
       \<and> (1 < length files_to_hide \<and> (\<forall>f\<in>set files_to_hide. fs f \<noteq> None)
            \<and> create_zip fs files_to_hide = Inr zip_data
            \<and> zip_file \<noteq> [] \<and> zip_file \<noteq> image_file
            \<and> zip_file \<noteq> output_image_name image_file \<longrightarrow>
          hide_files can_open flushed create_zip zip_file fs image_file files_to_hide =
            Inr ((fs(zip_file \<mapsto> zip_data,
                     output_image_name image_file \<mapsto> image_data @ zip_data))
                 (zip_file := None)))"
proof (intro conjI impI)
  assume single: "files_to_hide = [file_path] \<and> fs file_path = Some content
      \<and> utf8_encode (path_name file_path) = Inr file_name
      \<and> file_path \<noteq> output_image_name image_file
      \<and> length content < 10 ^ 10"
  then have "hide_files can_open flushed create_zip zip_file fs image_file [file_path] =
     Inr (fs(output_image_name image_file \<mapsto>
            image_data @ format_left LENGTH_FIELD_SIZE (length content) @ file_name
            @ FILENAME_SEPARATOR @ content @ SEPARATOR))"
    using assms by (intro hide_files_single) simp_all
  with single show "hide_files can_open flushed create_zip zip_file fs image_file files_to_hide =
      Inr (fs(output_image_name image_file \<mapsto>
             image_data @ decimal (length content)
             @ replicate (10 - length (decimal (length content))) 0x20
             @ file_name @ [0x00] @ content @ [0x0D, 0x0A, 0x0D, 0x0A]))"
    by (simp add: format_left_def LENGTH_FIELD_SIZE_def FILENAME_SEPARATOR_def SEPARATOR_def)
  from single have "length (decimal (length content)) \<le> 10"
    by (intro length_decimal) simp_all
  then show "length (decimal (length content)
      @ replicate (10 - length (decimal (length content))) (0x20 :: byte)) = 10"
    by simp
next
  assume "1 < length files_to_hide \<and> (\<forall>f\<in>set files_to_hide. fs f \<noteq> None)
      \<and> create_zip fs files_to_hide = Inr zip_data
      \<and> zip_file \<noteq> [] \<and> zip_file \<noteq> image_file
      \<and> zip_file \<noteq> output_image_name image_file"
  with assms show "hide_files can_open flushed create_zip zip_file fs image_file files_to_hide =
      Inr ((fs(zip_file \<mapsto> zip_data,
               output_image_name image_file \<mapsto> image_data @ zip_data))(zip_file := None))"
    by (intro hide_files_many) simp_all
qed

theorem hide_files_output_witness:
  "hide_files (\<lambda>p. True) unflushed no_zip [str_of ''z.zip''] small_fs carrier_path
       [secret_path] =
     Inr (small_fs([str_of ''c_with_hidden_files.png''] \<mapsto>
       [0x89, 0x31, 0x20, 0x20, 0x20, 0x20, 0x20, 0x20, 0x20, 0x20, 0x20, 0x61, 0x00, 0x78,
        0x0D, 0x0A, 0x0D, 0x0A]))
   \<and> hide_files (\<lambda>p. True) unflushed stored_zip [str_of ''z.zip''] small_fs carrier_path
       [secret_path, carrier_path] =
     Inr ((small_fs([str_of ''z.zip''] \<mapsto> [0x50, 0x4B, 0x05, 0x06],
                    [str_of ''c_with_hidden_files.png''] \<mapsto> [0x89, 0x50, 0x4B, 0x05, 0x06]))
          ([str_of ''z.zip''] := None))"
proof -
  have distinct_paths: "secret_path \<noteq> output_image_name carrier_path"
      "[str_of ''z.zip''] \<noteq> carrier_path"
      "[str_of ''z.zip''] \<noteq> output_image_name carrier_path"
    unfolding output_of_carrier
    by (simp_all add: secret_path_def carrier_path_def str_of_def)
  have one: "hide_files (\<lambda>p. True) unflushed no_zip [str_of ''z.zip''] small_fs carrier_path
        [secret_path] =
      Inr (small_fs(output_image_name carrier_path \<mapsto>
             [0x89] @ decimal (length [0x78 :: byte])
             @ replicate (10 - length (decimal (length [0x78 :: byte]))) 0x20
             @ [0x61] @ [0x00] @ [0x78] @ [0x0D, 0x0A, 0x0D, 0x0A]))"
    using hide_files_output [where fs = small_fs and image_file = carrier_path
            and image_data = "[0x89]" and can_open = "\<lambda>p. True" and flushed = unflushed
            and files_to_hide = "[secret_path]"
            and file_path = secret_path and content = "[0x78]" and file_name = "[0x61]"
            and create_zip = no_zip and zip_file = "[str_of ''z.zip'']",
            OF small_fs_lookup(1)]
      small_fs_lookup(2) secret_name distinct_paths(1)
    by simp
  have many: "hide_files (\<lambda>p. True) unflushed stored_zip [str_of ''z.zip''] small_fs
        carrier_path [secret_path, carrier_path] =
      Inr ((small_fs([str_of ''z.zip''] \<mapsto> [0x50, 0x4B, 0x05, 0x06],
              output_image_name carrier_path \<mapsto> [0x89] @ [0x50, 0x4B, 0x05, 0x06]))
           ([str_of ''z.zip''] := None))"
    using hide_files_output [where fs = small_fs and image_file = carrier_path
            and image_data = "[0x89]" and can_open = "\<lambda>p. True" and flushed = unflushed
            and files_to_hide = "[secret_path, carrier_path]"
            and create_zip = stored_zip and zip_file = "[str_of ''z.zip'']"
            and zip_data = "[0x50, 0x4B, 0x05, 0x06]",
            OF small_fs_lookup(1)]
      small_fs_lookup distinct_paths(2,3)
    by (simp add: stored_zip_def)
  from one many show ?thesis
    by (simp add: output_of_carrier length_field_one)
qed

text \<open>
  For a one-byte file the length field written is \<open>1\<close> followed by nine spaces, where a
  field padded on the left has the nine spaces first.
\<close>

theorem length_field_not_left_padded:
  "hide_files (\<lambda>p. True) unflushed no_zip [str_of ''z.zip''] small_fs carrier_path
       [secret_path] =
     Inr (small_fs([str_of ''c_with_hidden_files.png''] \<mapsto>
       [0x89, 0x31, 0x20, 0x20, 0x20, 0x20, 0x20, 0x20, 0x20, 0x20, 0x20, 0x61, 0x00, 0x78,
        0x0D, 0x0A, 0x0D, 0x0A]))
   \<and> [0x89] @ record_by_spec [0x61] [0x78] =
       [0x89, 0x20, 0x20, 0x20, 0x20, 0x20, 0x20, 0x20, 0x20, 0x20, 0x31, 0x61, 0x00, 0x78,
        0x0D, 0x0A, 0x0D, 0x0A]
   \<and> hide_files (\<lambda>p. True) unflushed no_zip [str_of ''z.zip''] small_fs carrier_path
         [secret_path] \<noteq>
       Inr (small_fs([str_of ''c_with_hidden_files.png''] \<mapsto>
              [0x89] @ record_by_spec [0x61] [0x78]))"
proof -
  have "secret_path \<noteq> output_image_name carrier_path"
    by (simp add: output_of_carrier secret_path_def str_of_def)
  then have "hide_files (\<lambda>p. True) unflushed no_zip [str_of ''z.zip''] small_fs carrier_path
       [secret_path] =
     Inr (small_fs(output_image_name carrier_path \<mapsto>
            [0x89] @ format_left LENGTH_FIELD_SIZE (length [0x78 :: byte]) @ [0x61]
            @ FILENAME_SEPARATOR @ [0x78] @ SEPARATOR))"
    by (intro hide_files_single small_fs_lookup secret_name) simp
  then have written: "hide_files (\<lambda>p. True) unflushed no_zip [str_of ''z.zip''] small_fs
       carrier_path [secret_path] =
     Inr (small_fs([str_of ''c_with_hidden_files.png''] \<mapsto>
       [0x89, 0x31, 0x20, 0x20, 0x20, 0x20, 0x20, 0x20, 0x20, 0x20, 0x20, 0x61, 0x00, 0x78,
        0x0D, 0x0A, 0x0D, 0x0A]))"
    by (simp add: output_of_carrier format_left_def length_field_one LENGTH_FIELD_SIZE_def
          FILENAME_SEPARATOR_def SEPARATOR_def)
  have by_spec: "[0x89] @ record_by_spec [0x61] [0x78] =
       [0x89, 0x20, 0x20, 0x20, 0x20, 0x20, 0x20, 0x20, 0x20, 0x20, 0x31, 0x61, 0x00, 0x78,
        0x0D, 0x0A, 0x0D, 0x0A]"
    by (simp add: record_by_spec_def length_field_one)
  have differ: "hide_files (\<lambda>p. True) unflushed no_zip [str_of ''z.zip''] small_fs
         carrier_path [secret_path] \<noteq>
       Inr (small_fs([str_of ''c_with_hidden_files.png''] \<mapsto>
              [0x89] @ record_by_spec [0x61] [0x78]))"
  proof
    assume "hide_files (\<lambda>p. True) unflushed no_zip [str_of ''z.zip''] small_fs
         carrier_path [secret_path] =
       Inr (small_fs([str_of ''c_with_hidden_files.png''] \<mapsto>
              [0x89] @ record_by_spec [0x61] [0x78]))"
    with written have "small_fs([str_of ''c_with_hidden_files.png''] \<mapsto>
          [0x89, 0x31, 0x20, 0x20, 0x20, 0x20, 0x20, 0x20, 0x20, 0x20, 0x20, 0x61, 0x00, 0x78,
           0x0D, 0x0A, 0x0D, 0x0A]) =
        small_fs([str_of ''c_with_hidden_files.png''] \<mapsto> [0x89] @ record_by_spec [0x61] [0x78])"
      by simp
    then have "Some [0x89, 0x31, 0x20, 0x20, 0x20, 0x20, 0x20, 0x20, 0x20, 0x20, 0x20, 0x61,
                     0x00, 0x78, 0x0D, 0x0A, 0x0D, 0x0A] =
               Some ([0x89] @ record_by_spec [0x61] [0x78])"
      by (rule fun_upd_eqD)
    with by_spec show False
      by simp
  qed
  from written by_spec differ show ?thesis
    by blast
qed

end
